theory Spec2Isabelle
  imports Complex_Main "HOL-Library.Word"
begin

section \<open>Wake word video trigger: the debug recorder and the detection loop of main.py\<close>

text \<open>
  The theory embeds \<^verbatim>\<open>src/main.py\<close>: the class \<^verbatim>\<open>RollingAudioRecorder\<close> and the
  class \<^verbatim>\<open>WakeWordDetector\<close>. Python integers are \<open>int\<close>, byte strings are lists of
  8-bit words, int16 sample arrays are lists of 16-bit words, and every exception the code can
  raise is a value of \<open>exn\<close> returned on the left of a sum. What the operating system, the
  audio device, the wake word model and the video player answer is an input of the model.
  Scores and the threshold are Python floats; they are taken as the real numbers they stand
  for, on which the comparison \<^verbatim>\<open>score > self.threshold\<close> is exact.
\<close>

subsection \<open>Exceptions, bytes and samples\<close>

type_synonym byte = "8 word"
type_synonym sample = "16 word"

datatype exn = Empty | KeyboardInterrupt | ValueError | ZeroDivisionError | OSError | RuntimeError

text \<open>
  \<^verbatim>\<open>np.frombuffer(audio_data, dtype=np.int16)\<close>: two bytes make one sample (low byte first),
  and a buffer of odd size raises ValueError.
\<close>

fun frombuffer :: "byte list \<Rightarrow> exn + sample list" where
  "frombuffer [] = Inr []"
| "frombuffer [b] = Inl ValueError"
| "frombuffer (lo # hi # bs) =
     (case frombuffer bs of Inl e \<Rightarrow> Inl e | Inr xs \<Rightarrow> Inr (word_cat hi lo # xs))"

text \<open>Python slices \<^verbatim>\<open>xs[:n]\<close> and \<^verbatim>\<open>xs[n:]\<close>; a negative \<open>n\<close> counts from the end.\<close>

definition slice_to :: "int \<Rightarrow> 'a list \<Rightarrow> 'a list" where
  "slice_to n xs = (if 0 \<le> n then take (nat n) xs else take (length xs - nat (- n)) xs)"

definition slice_from :: "int \<Rightarrow> 'a list \<Rightarrow> 'a list" where
  "slice_from n xs = (if 0 \<le> n then drop (nat n) xs else drop (length xs - nat (- n)) xs)"

subsection \<open>RollingAudioRecorder\<close>

record RollingAudioRecorder =
  output_dir :: string
  num_files :: int
  duration_seconds :: int
  sample_rate :: int
  channels :: int
  sample_width :: int
  samples_per_file :: int
  current_file_index :: int
  audio_buffer :: "sample list list"
  buffer_sample_count :: int

text \<open>
  One call of \<^verbatim>\<open>wave.open(filename, 'wb')\<close> with its \<^verbatim>\<open>writeframes\<close>: the index in the
  file name \<^verbatim>\<open>buffer_{index}.wav\<close>, the samples handed over, and whether the write went
  through (a failure is caught and reported by the recorder). The list of these calls, oldest
  first, stands for the output directory.
\<close>

record wav_write =
  file_index :: int
  frames :: "sample list"
  succeeded :: bool

type_synonym recorder_state = "RollingAudioRecorder \<times> wav_write list"

text \<open>\<^verbatim>\<open>__init__\<close>; \<open>makedirs_ok\<close> tells whether \<^verbatim>\<open>os.makedirs\<close> succeeds.\<close>

definition RollingAudioRecorder_init ::
  "bool \<Rightarrow> string \<Rightarrow> int \<Rightarrow> int \<Rightarrow> int \<Rightarrow> int \<Rightarrow> exn + RollingAudioRecorder" where
  "RollingAudioRecorder_init makedirs_ok dir n_files duration rate chans =
     (if makedirs_ok
      then Inr \<lparr>output_dir = dir, num_files = n_files, duration_seconds = duration,
                sample_rate = rate, channels = chans, sample_width = 2,
                samples_per_file = rate * duration, current_file_index = 0,
                audio_buffer = [], buffer_sample_count = 0\<rparr>
      else Inl OSError)"

text \<open>The constructor's defaults, as \<^verbatim>\<open>RollingAudioRecorder()\<close> uses them.\<close>

definition RollingAudioRecorder_default :: "bool \<Rightarrow> exn + RollingAudioRecorder" where
  "RollingAudioRecorder_default makedirs_ok =
     RollingAudioRecorder_init makedirs_ok ''./debug_recordings'' 10 5 16000 1"

text \<open>
  \<^verbatim>\<open>_write_current_buffer\<close>; \<open>io_ok\<close> tells whether writing the WAV file succeeds. The
  modulus by \<open>num_files\<close> raises ZeroDivisionError when \<open>num_files\<close> is 0, after the write.
\<close>

definition write_current_buffer :: "bool \<Rightarrow> recorder_state \<Rightarrow> exn + recorder_state" where
  "write_current_buffer io_ok st =
     (case st of (r, disk) \<Rightarrow>
        if audio_buffer r = [] then Inr (r, disk)
        else
          let full_audio = concat (audio_buffer r);
              audio_to_write = slice_to (samples_per_file r) full_audio;
              disk' = disk @ [\<lparr>file_index = current_file_index r, frames = audio_to_write,
                               succeeded = io_ok\<rparr>]
          in if num_files r = 0 then Inl ZeroDivisionError
             else
               let r' = r\<lparr>current_file_index := (current_file_index r + 1) mod num_files r\<rparr>
               in if int (length full_audio) > samples_per_file r
                  then
                    let remaining_audio = slice_from (samples_per_file r) full_audio
                    in Inr (r'\<lparr>audio_buffer := [remaining_audio],
                                buffer_sample_count := int (length remaining_audio)\<rparr>, disk')
                  else Inr (r'\<lparr>audio_buffer := [], buffer_sample_count := 0\<rparr>, disk'))"

text \<open>\<^verbatim>\<open>process_chunk\<close>.\<close>

definition process_chunk :: "bool \<Rightarrow> byte list \<Rightarrow> recorder_state \<Rightarrow> exn + recorder_state" where
  "process_chunk io_ok audio_data st =
     (case st of (r, disk) \<Rightarrow>
        (case frombuffer audio_data of
           Inl e \<Rightarrow> Inl e
         | Inr audio_array \<Rightarrow>
             let r' = r\<lparr>audio_buffer := audio_buffer r @ [audio_array],
                        buffer_sample_count := buffer_sample_count r + int (length audio_array)\<rparr>
             in if buffer_sample_count r' \<ge> samples_per_file r'
                then write_current_buffer io_ok (r', disk)
                else Inr (r', disk)))"

text \<open>
  Feeding a sequence of chunks, one \<^verbatim>\<open>process_chunk\<close> call each, as the detection loop
  does; each chunk comes with the outcome of the file write it may trigger. An exception ends
  the sequence.
\<close>

fun process_chunks :: "(bool \<times> byte list) list \<Rightarrow> recorder_state \<Rightarrow> exn + recorder_state" where
  "process_chunks [] st = Inr st"
| "process_chunks ((io_ok, audio_data) # cs) st =
     (case process_chunk io_ok audio_data st of
        Inl e \<Rightarrow> Inl e
      | Inr st' \<Rightarrow> process_chunks cs st')"

text \<open>The samples of a byte string of even size, for stating what a sequence of chunks holds.\<close>

fun samples_of :: "byte list \<Rightarrow> sample list" where
  "samples_of (lo # hi # bs) = word_cat hi lo # samples_of bs"
| "samples_of bs = []"

text \<open>The recorder's invariant.\<close>

definition recorder_inv :: "RollingAudioRecorder \<Rightarrow> bool" where
  "recorder_inv r \<longleftrightarrow>
     buffer_sample_count r = int (length (concat (audio_buffer r))) \<and>
     0 \<le> current_file_index r \<and> current_file_index r < num_files r"

subsection \<open>WakeWordDetector: construction and start-up\<close>

text \<open>Python truthiness of an optional string or list: \<^verbatim>\<open>None\<close> and the empty value are false.\<close>

definition truthy :: "'a list option \<Rightarrow> bool" where
  "truthy v = (case v of None \<Rightarrow> False | Some xs \<Rightarrow> xs \<noteq> [])"

text \<open>\<^verbatim>\<open>os.getenv(name, default)\<close> over the environment \<open>env\<close>.\<close>

definition getenv_default :: "(string \<Rightarrow> string option) \<Rightarrow> string \<Rightarrow> string \<Rightarrow> string" where
  "getenv_default env name dflt = (case env name of None \<Rightarrow> dflt | Some v \<Rightarrow> v)"

text \<open>\<^verbatim>\<open>s.split(",")\<close>.\<close>

fun split_comma :: "string \<Rightarrow> string list" where
  "split_comma [] = [[]]"
| "split_comma (c # cs) =
     (if c = CHR '','' then [] # split_comma cs
      else (case split_comma cs of w # ws \<Rightarrow> (c # w) # ws | [] \<Rightarrow> [[c]]))"

text \<open>\<^verbatim>\<open>s.lower()\<close> on the ASCII letters; other bytes stay as they are.\<close>

definition lower_char :: "char \<Rightarrow> char" where
  "lower_char c =
     (let n = (of_char c :: nat) in if 65 \<le> n \<and> n \<le> 90 then char_of (n + 32) else c)"

definition lower :: "string \<Rightarrow> string" where
  "lower s = map lower_char s"

text \<open>
  What the program does that can be observed from outside, in the order it does it: the calls
  to the model, the capture control, the queue flush, the player, and the messages printed
  around them.
\<close>

datatype play_outcome = Completed | MpvNotFound | PlayFailed | PlayInterrupted

datatype event =
    DownloadModels "string list option"
  | Predict
  | WakeWordDetected string real
  | StopRecording
  | ClearQueue
  | ResetModel
  | PlayVideo play_outcome
  | ListeningAgain
  | StartRecording
  | ShuttingDown
  | Cleanup

text \<open>The loaded \<^verbatim>\<open>openwakeword\<close> model, known by the model list it was built from.\<close>

datatype model = Model (wakeword_models: "string list option")

text \<open>
  The detector object. \<open>threads\<close> holds every capture thread started so far, \<open>True\<close>
  while it is alive, and \<open>recording_thread\<close> is the position of the current one;
  \<open>recordings\<close> is the debug recorder's output and \<open>trace\<close> the events so far. The audio
  settings are constants of the source (16000 Hz, 1280 samples a chunk, mono) and the
  \<^verbatim>\<open>pyaudio\<close> handles are reduced to whether the stream is open.
\<close>

record WakeWordDetector =
  custom_model_path :: "string option"
  wake_word_models :: "string list option"
  video_path :: string
  threshold :: real
  enable_debug_recording :: bool
  debug_recorder :: "RollingAudioRecorder option"
  audio_queue :: "byte list list"
  recording :: bool
  recording_thread :: "nat option"
  stream_open :: bool
  model :: "model option"
  threads :: "bool list"
  recordings :: "wav_write list"
  trace :: "event list"

text \<open>One more event at the end of the trace.\<close>

definition emit :: "event \<Rightarrow> WakeWordDetector \<Rightarrow> WakeWordDetector" where
  "emit e d = d\<lparr>trace := trace d @ [e]\<rparr>"

text \<open>
  \<^verbatim>\<open>__init__\<close>, over the environment \<open>env\<close>; \<open>parse_float\<close> is Python's
  \<^verbatim>\<open>float\<close> on a string, which raises ValueError on a string that is no number.
\<close>

definition WakeWordDetector_init ::
  "(string \<Rightarrow> string option) \<Rightarrow> (string \<Rightarrow> exn + real) \<Rightarrow> bool \<Rightarrow>
   string list option \<Rightarrow> string option \<Rightarrow> exn + WakeWordDetector" where
  "WakeWordDetector_init env parse_float makedirs_ok models_override custom_model_path_arg =
     (let (path, models) =
            (if truthy custom_model_path_arg then (custom_model_path_arg, None)
             else if truthy (env ''CUSTOM_MODEL_PATH'') then (env ''CUSTOM_MODEL_PATH'', None)
             else (None,
                   if truthy models_override then models_override
                   else Some (split_comma (getenv_default env ''WAKE_WORD_MODELS'' ''hey_jarvis''))))
      in case parse_float (getenv_default env ''THRESHOLD'' ''0.5'') of
           Inl e \<Rightarrow> Inl e
         | Inr th \<Rightarrow>
             (let enable = (lower (getenv_default env ''ENABLE_DEBUG_RECORDING'' ''false'') = ''true'')
              in case (if enable then map_sum id Some (RollingAudioRecorder_default makedirs_ok)
                       else Inr None) of
                   Inl e \<Rightarrow> Inl e
                 | Inr recorder \<Rightarrow>
                     Inr \<lparr>custom_model_path = path, wake_word_models = models,
                          video_path = getenv_default env ''VIDEO_PATH'' ''./video.mp4'',
                          threshold = th, enable_debug_recording = enable,
                          debug_recorder = recorder, audio_queue = [], recording = False,
                          recording_thread = None, stream_open = False, model = None,
                          threads = [], recordings = [], trace = []\<rparr>))"

text \<open>\<^verbatim>\<open>verify_video_exists\<close>; \<open>path_exists\<close> is \<^verbatim>\<open>os.path.exists\<close>.\<close>

definition verify_video_exists :: "(string \<Rightarrow> bool) \<Rightarrow> WakeWordDetector \<Rightarrow> bool" where
  "verify_video_exists path_exists d = path_exists (video_path d)"

text \<open>
  \<^verbatim>\<open>initialize_model\<close>. \<open>download_ok\<close> and \<open>load_ok\<close> tell whether
  \<^verbatim>\<open>download_models\<close> and the \<^verbatim>\<open>Model\<close> constructor return for the given model list;
  any exception of theirs is caught and the result is \<^verbatim>\<open>False\<close>.
\<close>

definition initialize_model ::
  "(string \<Rightarrow> bool) \<Rightarrow> (string list option \<Rightarrow> bool) \<Rightarrow> (string list option \<Rightarrow> bool) \<Rightarrow>
   WakeWordDetector \<Rightarrow> bool \<times> WakeWordDetector" where
  "initialize_model path_exists download_ok load_ok d =
     (if truthy (custom_model_path d)
      then
        (case custom_model_path d of
           None \<Rightarrow> (False, d)
         | Some p \<Rightarrow>
             if \<not> path_exists p then (False, d)
             else if load_ok (Some [p]) then (True, d\<lparr>model := Some (Model (Some [p]))\<rparr>)
             else (False, d))
      else
        (let d' = emit (DownloadModels (wake_word_models d)) d
         in if \<not> download_ok (wake_word_models d) then (False, d')
            else if load_ok (wake_word_models d)
                 then (True, d'\<lparr>model := Some (Model (wake_word_models d))\<rparr>)
                 else (False, d')))"

text \<open>\<^verbatim>\<open>initialize_audio\<close>; \<open>audio_ok\<close> tells whether the input stream could be opened.\<close>

definition initialize_audio :: "bool \<Rightarrow> WakeWordDetector \<Rightarrow> bool \<times> WakeWordDetector" where
  "initialize_audio audio_ok d =
     (if audio_ok then (True, d\<lparr>stream_open := True\<rparr>) else (False, d))"

subsection \<open>WakeWordDetector: capture control\<close>

text \<open>\<^verbatim>\<open>self.recording_thread and self.recording_thread.is_alive()\<close>.\<close>

definition thread_alive :: "WakeWordDetector \<Rightarrow> bool" where
  "thread_alive d =
     (case recording_thread d of
        None \<Rightarrow> False
      | Some i \<Rightarrow> i < length (threads d) \<and> threads d ! i)"

text \<open>\<^verbatim>\<open>start_recording\<close>: a new thread only when there is none or the last one is dead.\<close>

definition start_recording :: "WakeWordDetector \<Rightarrow> WakeWordDetector" where
  "start_recording d =
     (if \<not> thread_alive d
      then d\<lparr>recording := True, recording_thread := Some (length (threads d)),
              threads := threads d @ [True]\<rparr>
      else d)"

text \<open>
  \<^verbatim>\<open>stop_recording\<close>: the flag is cleared and the thread joined for at most two seconds;
  \<open>exits\<close> tells whether the worker has left its loop by the time the join returns. A
  worker that has not (it is still in \<^verbatim>\<open>stream.read\<close>) stays alive with the flag
  cleared.
\<close>

definition stop_recording :: "bool \<Rightarrow> WakeWordDetector \<Rightarrow> WakeWordDetector" where
  "stop_recording exits d =
     (let d' = d\<lparr>recording := False\<rparr>
      in case recording_thread d' of
           None \<Rightarrow> d'
         | Some i \<Rightarrow> if exits then d'\<lparr>threads := (threads d')[i := False]\<rparr> else d')"

text \<open>The number of capture threads alive.\<close>

definition active_threads :: "WakeWordDetector \<Rightarrow> nat" where
  "active_threads d = length (filter id (threads d))"

text \<open>
  \<^verbatim>\<open>Queue.put(audio_data, timeout=0.1)\<close> in \<^verbatim>\<open>_recording_worker\<close> on the queue of
  \<^verbatim>\<open>maxsize=100\<close>: on a queue that stays full the put raises \<^verbatim>\<open>Full\<close>, the worker
  swallows it and the chunk is lost.
\<close>

definition queue_put :: "byte list \<Rightarrow> byte list list \<Rightarrow> byte list list" where
  "queue_put item q = (if length q < 100 then q @ [item] else q)"

text \<open>
  \<^verbatim>\<open>_recording_worker\<close>, as far as the consumer sees it; \<open>chunks\<close> are the chunks the
  stream has delivered since the consumer last looked. They reach the queue only through a
  live capture thread: while the flag is set (\<^verbatim>\<open>while self.recording.is_set()\<close>) the
  worker puts them all, in order; a worker whose flag was cleared while it was reading
  finishes that iteration, so it puts the chunk it was waiting for, once there is one, and
  leaves the loop; with no live thread nothing is read. The worker runs on a thread of its
  own: which chunks the stream delivers between two iterations is an input, not something the
  model decides.
\<close>

definition recording_worker :: "byte list list \<Rightarrow> WakeWordDetector \<Rightarrow> WakeWordDetector" where
  "recording_worker chunks d =
     (case recording_thread d of
        None \<Rightarrow> d
      | Some i \<Rightarrow>
          if \<not> thread_alive d then d
          else if recording d
          then d\<lparr>audio_queue := foldl (\<lambda>q c. queue_put c q) (audio_queue d) chunks\<rparr>
          else
            (case chunks of
               [] \<Rightarrow> d
             | c # later \<Rightarrow>
                 d\<lparr>audio_queue := queue_put c (audio_queue d),
                   threads := (threads d)[i := False]\<rparr>))"

text \<open>
  \<^verbatim>\<open>play_video\<close>: \<^verbatim>\<open>FileNotFoundError\<close> and every other \<^verbatim>\<open>Exception\<close> of
  \<^verbatim>\<open>subprocess.run\<close> are caught and printed; only a keyboard interrupt leaves the function.
\<close>

definition play_video :: "play_outcome \<Rightarrow> WakeWordDetector \<Rightarrow> exn option \<times> WakeWordDetector" where
  "play_video outcome d =
     (case outcome of
        PlayInterrupted \<Rightarrow> (Some KeyboardInterrupt, emit (PlayVideo PlayInterrupted) d)
      | _ \<Rightarrow> (None, emit (PlayVideo outcome) d))"

text \<open>\<^verbatim>\<open>cleanup\<close>.\<close>

definition cleanup :: "bool \<Rightarrow> WakeWordDetector \<Rightarrow> WakeWordDetector" where
  "cleanup exits d =
     emit Cleanup ((emit StopRecording (stop_recording exits d))\<lparr>stream_open := False\<rparr>)"

subsection \<open>WakeWordDetector: the detection loop\<close>

text \<open>
  What the environment answers while one detection is handled: whether the capture thread
  exits within the join, and how the player ends.
\<close>

record handling =
  thread_exits :: bool
  mpv :: play_outcome

text \<open>
  The inputs of one iteration of the loop: the chunks the stream delivers to the capture
  thread by the time \<^verbatim>\<open>get\<close> returns, whether Ctrl-C arrives during the wait, whether a debug
  file write succeeds, what \<^verbatim>\<open>model.predict\<close> answers for the chunk (a mapping in the
  order of its items, or an exception), and the handling of the detection of the
  \<open>i\<close>-th item.
\<close>

record tick =
  captured :: "byte list list"
  ctrl_c :: bool
  write_ok :: bool
  prediction :: "exn + (string \<times> real) list"
  handlings :: "nat \<Rightarrow> handling"

text \<open>The body of \<^verbatim>\<open>if score > self.threshold:\<close> (lines 255 to 267 of main.py).\<close>

definition wake_word_detected ::
  "handling \<Rightarrow> string \<Rightarrow> real \<Rightarrow> WakeWordDetector \<Rightarrow> exn option \<times> WakeWordDetector" where
  "wake_word_detected h model_name score d =
     (let d1 = emit (WakeWordDetected model_name score) d;
          d2 = emit StopRecording (stop_recording (thread_exits h) d1);
          d3 = emit ClearQueue (d2\<lparr>audio_queue := []\<rparr>);
          d4 = emit ResetModel d3
      in case play_video (mpv h) d4 of
           (Some e, d5) \<Rightarrow> (Some e, d5)
         | (None, d5) \<Rightarrow> (None, emit StartRecording (start_recording (emit ListeningAgain d5))))"

text \<open>\<^verbatim>\<open>for model_name, score in prediction.items():\<close> from the \<open>i\<close>-th item on.\<close>

fun check_results ::
  "(nat \<Rightarrow> handling) \<Rightarrow> nat \<Rightarrow> (string \<times> real) list \<Rightarrow> WakeWordDetector \<Rightarrow>
   exn option \<times> WakeWordDetector" where
  "check_results hs i [] d = (None, d)"
| "check_results hs i ((model_name, score) # items) d =
     (if score > threshold d
      then (case wake_word_detected (hs i) model_name score d of
              (Some e, d') \<Rightarrow> (Some e, d')
            | (None, d') \<Rightarrow> check_results hs (Suc i) items d')
      else check_results hs (Suc i) items d)"

text \<open>\<^verbatim>\<open>if self.debug_recorder: self.debug_recorder.process_chunk(audio_data)\<close>.\<close>

definition debug_record :: "bool \<Rightarrow> byte list \<Rightarrow> WakeWordDetector \<Rightarrow> exn + WakeWordDetector" where
  "debug_record io_ok audio_data d =
     (case debug_recorder d of
        None \<Rightarrow> Inr d
      | Some r \<Rightarrow>
          (case process_chunk io_ok audio_data (r, recordings d) of
             Inl e \<Rightarrow> Inl e
           | Inr (r', files) \<Rightarrow> Inr (d\<lparr>debug_recorder := Some r', recordings := files\<rparr>)))"

text \<open>
  The body of the inner \<^verbatim>\<open>try\<close>: the exception it ends with, if any, and the detector
  after it. \<^verbatim>\<open>get(timeout=0.5)\<close> on a queue that stays empty raises \<^verbatim>\<open>Empty\<close>.
\<close>

definition loop_body :: "tick \<Rightarrow> WakeWordDetector \<Rightarrow> exn option \<times> WakeWordDetector" where
  "loop_body t d =
     (let d0 = recording_worker (captured t) d
      in if ctrl_c t then (Some KeyboardInterrupt, d0)
         else
           (case audio_queue d0 of
              [] \<Rightarrow> (Some Empty, d0)
            | audio_data # queued \<Rightarrow>
                (let d1 = d0\<lparr>audio_queue := queued\<rparr>
                 in case debug_record (write_ok t) audio_data d1 of
                      Inl e \<Rightarrow> (Some e, d1)
                    | Inr d2 \<Rightarrow>
                        (case frombuffer audio_data of
                           Inl e \<Rightarrow> (Some e, d2)
                         | Inr audio_array \<Rightarrow>
                             (case prediction t of
                                Inl e \<Rightarrow> (Some e, emit Predict d2)
                              | Inr items \<Rightarrow> check_results (handlings t) 0 items (emit Predict d2))))))"

text \<open>
  How far the loop has come: still listening when the inputs are used up, shut down by a
  keyboard interrupt, or left by an exception that \<^verbatim>\<open>run\<close> does not catch.
\<close>

datatype status = NotStarted | Listening | ShutDown | Crashed exn

text \<open>
  \<^verbatim>\<open>while True:\<close> with its handlers, over the inputs of the iterations: \<^verbatim>\<open>Empty\<close>
  continues, \<^verbatim>\<open>KeyboardInterrupt\<close> ends the loop, anything else leaves \<^verbatim>\<open>run\<close>;
  \<^verbatim>\<open>finally\<close> runs \<^verbatim>\<open>cleanup\<close> in both cases (\<open>exits\<close> is the answer to its join).
\<close>

fun run_loop :: "bool \<Rightarrow> tick list \<Rightarrow> WakeWordDetector \<Rightarrow> status \<times> WakeWordDetector" where
  "run_loop exits [] d = (Listening, d)"
| "run_loop exits (t # ts) d =
     (case loop_body t d of
        (None, d') \<Rightarrow> run_loop exits ts d'
      | (Some Empty, d') \<Rightarrow> run_loop exits ts d'
      | (Some KeyboardInterrupt, d') \<Rightarrow> (ShutDown, cleanup exits (emit ShuttingDown d'))
      | (Some e, d') \<Rightarrow> (Crashed e, cleanup exits d'))"

text \<open>\<^verbatim>\<open>run\<close>.\<close>

definition run ::
  "(string \<Rightarrow> bool) \<Rightarrow> (string list option \<Rightarrow> bool) \<Rightarrow> (string list option \<Rightarrow> bool) \<Rightarrow> bool \<Rightarrow>
   bool \<Rightarrow> tick list \<Rightarrow> WakeWordDetector \<Rightarrow> status \<times> WakeWordDetector" where
  "run path_exists download_ok load_ok audio_ok exits ticks d =
     (if \<not> verify_video_exists path_exists d then (NotStarted, d)
      else
        (case initialize_model path_exists download_ok load_ok d of
           (False, d1) \<Rightarrow> (NotStarted, d1)
         | (True, d1) \<Rightarrow>
             (case initialize_audio audio_ok d1 of
                (False, d2) \<Rightarrow> (NotStarted, d2)
              | (True, d2) \<Rightarrow> run_loop exits ticks (emit StartRecording (start_recording d2)))))"

text \<open>The detections in a trace, oldest first.\<close>

fun detections :: "event list \<Rightarrow> (string \<times> real) list" where
  "detections [] = []"
| "detections (WakeWordDetected name score # es) = (name, score) # detections es"
| "detections (e # es) = detections es"

section \<open>Auxiliary predicates and example inputs\<close>

text \<open>
  What holds of a recorder between two chunks when no chunk is longer than a file: fewer than
  \<open>spf\<close> samples are buffered, every file written so far is exactly \<open>spf\<close> samples long,
  the files followed by the buffer are the samples \<open>fed\<close> so far, and the indices of the
  files count up from 0 modulo \<open>nf\<close>.
\<close>

definition ring_inv :: "int \<Rightarrow> int \<Rightarrow> sample list \<Rightarrow> recorder_state \<Rightarrow> bool" where
  "ring_inv spf nf fed st \<longleftrightarrow>
     (case st of (r, disk) \<Rightarrow>
        samples_per_file r = spf \<and> num_files r = nf \<and>
        buffer_sample_count r = int (length (concat (audio_buffer r))) \<and>
        buffer_sample_count r < spf \<and>
        list_all (\<lambda>w. int (length (frames w)) = spf) disk \<and>
        concat (map frames disk) @ concat (audio_buffer r) = fed \<and>
        current_file_index r = int (length disk) mod nf \<and>
        map file_index disk = map (\<lambda>i. int i mod nf) [0..<length disk])"

text \<open>A recorder of ten files of two samples each (one second at 2 Hz), just constructed.\<close>

definition ring_example_start :: RollingAudioRecorder where
  "ring_example_start =
     \<lparr>output_dir = ''./debug_recordings'', num_files = 10, duration_seconds = 1,
      sample_rate = 2, channels = 1, sample_width = 2, samples_per_file = 2,
      current_file_index = 0, audio_buffer = [], buffer_sample_count = 0\<rparr>"

text \<open>
  The capture threads are in order when no thread but the current one is alive.
\<close>

definition capture_inv :: "WakeWordDetector \<Rightarrow> bool" where
  "capture_inv d \<longleftrightarrow>
     list_all (\<lambda>i. threads d ! i \<longrightarrow> recording_thread d = Some i) [0..<length (threads d)]"

text \<open>
  The capture is running when the current thread is alive and its flag is set; the debug
  recorder can rotate its files when there is none or it has at least one file.
\<close>

definition capturing :: "WakeWordDetector \<Rightarrow> bool" where
  "capturing d \<longleftrightarrow> thread_alive d \<and> recording d"

definition recorder_usable :: "WakeWordDetector \<Rightarrow> bool" where
  "recorder_usable d \<longleftrightarrow>
     (case debug_recorder d of None \<Rightarrow> True | Some r \<Rightarrow> num_files r \<noteq> 0)"

text \<open>The events a run has added to the trace of the detector it started from.\<close>

definition events_since :: "WakeWordDetector \<Rightarrow> WakeWordDetector \<Rightarrow> event list" where
  "events_since d d' = drop (length (trace d)) (trace d')"

text \<open>
  A monitor for the order of the events, after the states of the specification: from
  \<open>Listen\<close> a detection leads through the stop of the capture, the flush of the queue,
  the reset of the model and the action, in this order, to \<open>Suspended\<close>, and only the
  restart of the capture leads back to \<open>Listen\<close>, the one state in which a chunk may be
  scored. A keyboard interrupt and the clean-up after an exception lead to \<open>Closing\<close>.
  Any event out of this order is a \<open>Violation\<close>.
\<close>

datatype phase =
  Listen | Fired | CaptureStopped | QueueFlushed | DetectorReset | Suspended | Resuming |
  Closing | Violation

fun monitor :: "phase \<Rightarrow> event \<Rightarrow> phase" where
  "monitor Listen Predict = Listen"
| "monitor Listen (WakeWordDetected name score) = Fired"
| "monitor Fired StopRecording = CaptureStopped"
| "monitor CaptureStopped ClearQueue = QueueFlushed"
| "monitor QueueFlushed ResetModel = DetectorReset"
| "monitor DetectorReset (PlayVideo outcome) =
     (if outcome = PlayInterrupted then Closing else Suspended)"
| "monitor Suspended ListeningAgain = Resuming"
| "monitor Resuming StartRecording = Listen"
| "monitor Listen ShuttingDown = Closing"
| "monitor Listen StopRecording = Closing"
| "monitor Closing ShuttingDown = Closing"
| "monitor Closing StopRecording = Closing"
| "monitor Closing Cleanup = Closing"
| "monitor p e = Violation"

text \<open>An iteration scores its chunk when it gets as far as calling \<^verbatim>\<open>model.predict\<close>.\<close>

definition scored :: "tick \<Rightarrow> WakeWordDetector \<Rightarrow> bool" where
  "scored t d \<longleftrightarrow> Predict \<in> set (events_since d (snd (loop_body t d)))"

text \<open>
  Example inputs. A chunk of 1280 samples of silence; a detector for the given models
  with threshold 0.5 and no debug recorder, listening with its first capture thread; a
  handling in which the thread exits and the video plays to its end; and the iteration in
  which one chunk arrives and the model answers with the given scores.
\<close>

definition silence :: "byte list" where
  "silence = replicate 2560 0"

definition listening_example :: "string list \<Rightarrow> WakeWordDetector" where
  "listening_example models =
     \<lparr>custom_model_path = None, wake_word_models = Some models,
      video_path = ''./video.mp4'', threshold = 0.5, enable_debug_recording = False,
      debug_recorder = None, audio_queue = [], recording = True,
      recording_thread = Some 0, stream_open = True, model = Some (Model (Some models)),
      threads = [True], recordings = [], trace = []\<rparr>"

definition played :: handling where
  "played = \<lparr>thread_exits = True, mpv = Completed\<rparr>"

definition frame_scoring :: "(string \<times> real) list \<Rightarrow> tick" where
  "frame_scoring items =
     \<lparr>captured = [silence], ctrl_c = False, write_ok = True, prediction = Inr items,
      handlings = (\<lambda>i. played)\<rparr>"

text \<open>The example detector before its first capture thread is started.\<close>

definition fresh_example :: WakeWordDetector where
  "fresh_example =
     (listening_example [''alpha''])\<lparr>recording := False, recording_thread := None, threads := []\<rparr>"

text \<open>
  An environment with no variable set, a number parser that knows the default threshold, and
  the detector that the constructor makes of them when given the model path \<open>my.onnx\<close>.
\<close>

definition no_env :: "string \<Rightarrow> string option" where
  "no_env name = None"

definition float_example :: "string \<Rightarrow> exn + real" where
  "float_example s = (if s = ''0.5'' then Inr 0.5 else Inl ValueError)"

definition custom_example :: WakeWordDetector where
  "custom_example =
     \<lparr>custom_model_path = Some ''my.onnx'', wake_word_models = None,
      video_path = ''./video.mp4'', threshold = 0.5, enable_debug_recording = False,
      debug_recorder = None, audio_queue = [], recording = False,
      recording_thread = None, stream_open = False, model = None,
      threads = [], recordings = [], trace = []\<rparr>"

text \<open>
  More example inputs: the four chunks of the crossing scenario, scored at 0.2, 0.6, 0.9 and
  0.1; an iteration in which \<^verbatim>\<open>model.predict\<close> raises; a handling in which the player is
  not installed, and an iteration handled that way; and the same with a capture thread that
  is stuck in its read and outlives the join.
\<close>

definition crossing_scenario :: "tick list" where
  "crossing_scenario = map (\<lambda>s. frame_scoring [(''alpha'', s)]) [0.2, 0.6, 0.9, 0.1]"

definition frame_failing :: "exn \<Rightarrow> tick" where
  "frame_failing e =
     \<lparr>captured = [silence], ctrl_c = False, write_ok = True, prediction = Inl e,
      handlings = (\<lambda>i. played)\<rparr>"

definition no_player :: handling where
  "no_player = \<lparr>thread_exits = True, mpv = MpvNotFound\<rparr>"

definition frame_unplayed :: "(string \<times> real) list \<Rightarrow> tick" where
  "frame_unplayed items =
     \<lparr>captured = [silence], ctrl_c = False, write_ok = True, prediction = Inr items,
      handlings = (\<lambda>i. no_player)\<rparr>"

definition stalled :: handling where
  "stalled = \<lparr>thread_exits = False, mpv = MpvNotFound\<rparr>"

definition frame_stalled :: "(string \<times> real) list \<Rightarrow> tick" where
  "frame_stalled items =
     \<lparr>captured = [silence], ctrl_c = False, write_ok = True, prediction = Inr items,
      handlings = (\<lambda>i. stalled)\<rparr>"

section \<open>Properties\<close>

subsection \<open>Bytes, samples and slices\<close>

lemma slice_to_from: "slice_to n xs @ slice_from n xs = xs"
  by (simp add: slice_to_def slice_from_def)

lemma frombuffer_even: "even (length bs) \<Longrightarrow> frombuffer bs = Inr (samples_of bs)"
  by (induction bs rule: frombuffer.induct) auto

lemma frombuffer_odd: "odd (length bs) \<Longrightarrow> frombuffer bs = Inl ValueError"
  by (induction bs rule: frombuffer.induct) auto

lemma length_samples_of: "length (samples_of bs) = length bs div 2"
  by (induction bs rule: samples_of.induct) auto

subsection \<open>The recorder's invariant\<close>

lemma write_current_buffer_inv:
  assumes "recorder_inv r" and "write_current_buffer io_ok (r, disk) = Inr (r', disk')"
  shows "recorder_inv r'"
  using assms
  by (auto simp: write_current_buffer_def recorder_inv_def Let_def split: if_splits)

lemma process_chunk_inv:
  assumes "recorder_inv r" and "process_chunk io_ok audio_data (r, disk) = Inr (r', disk')"
  shows "recorder_inv r'"
proof (cases "frombuffer audio_data")
  case (Inl e)
  with assms(2) show ?thesis by (simp add: process_chunk_def)
next
  case (Inr audio_array)
  let ?r1 = "r\<lparr>audio_buffer := audio_buffer r @ [audio_array],
                buffer_sample_count := buffer_sample_count r + int (length audio_array)\<rparr>"
  have inv1: "recorder_inv ?r1"
    using assms(1) by (simp add: recorder_inv_def)
  show ?thesis
  proof (cases "buffer_sample_count ?r1 \<ge> samples_per_file ?r1")
    case True
    with assms(2) Inr have "write_current_buffer io_ok (?r1, disk) = Inr (r', disk')"
      by (simp add: process_chunk_def Let_def)
    with inv1 show ?thesis by (rule write_current_buffer_inv)
  next
    case False
    with assms(2) Inr have "r' = ?r1"
      by (simp add: process_chunk_def Let_def)
    with inv1 show ?thesis by simp
  qed
qed

lemma ring_example_init:
  "RollingAudioRecorder_init True ''./debug_recordings'' 10 1 2 1 = Inr ring_example_start"
  by (simp add: RollingAudioRecorder_init_def ring_example_start_def)

lemma ring_example_long_chunk:
  "process_chunk True [1, 0, 2, 0, 3, 0, 4, 0] (ring_example_start, []) =
     Inr (ring_example_start\<lparr>current_file_index := 1, audio_buffer := [[3, 4]],
                              buffer_sample_count := 2\<rparr>,
          [\<lparr>file_index = 0, frames = [1, 2], succeeded = True\<rparr>])"
  by (simp add: process_chunk_def write_current_buffer_def ring_example_start_def
      slice_to_def slice_from_def word_cat_eq)

text \<open>
  C10. The recorder keeps its invariant: \<open>buffer_sample_count\<close> is the number of samples
  held in \<open>audio_buffer\<close> and \<open>current_file_index\<close> lies in \<open>[0, num_files)\<close>. It holds
  of a recorder constructed with at least one file, every \<^verbatim>\<open>process_chunk\<close> call that
  returns keeps it, and \<^verbatim>\<open>_write_current_buffer\<close> on an empty \<open>audio_buffer\<close> changes
  neither the recorder nor the files.
\<close>

theorem recorder_invariant:
  "(0 < n_files \<and> RollingAudioRecorder_init ok dir n_files duration rate chans = Inr r0
      \<longrightarrow> recorder_inv r0) \<and>
   (recorder_inv r \<and> process_chunk io_ok audio_data (r, disk) = Inr (r', disk')
      \<longrightarrow> recorder_inv r') \<and>
   (audio_buffer e = [] \<longrightarrow> write_current_buffer io_ok' (e, disk0) = Inr (e, disk0))"
proof (intro conjI impI)
  assume "0 < n_files \<and> RollingAudioRecorder_init ok dir n_files duration rate chans = Inr r0"
  then show "recorder_inv r0"
    by (auto simp: RollingAudioRecorder_init_def recorder_inv_def split: if_splits)
next
  assume "recorder_inv r \<and> process_chunk io_ok audio_data (r, disk) = Inr (r', disk')"
  then show "recorder_inv r'" using process_chunk_inv by blast
next
  assume "audio_buffer e = []"
  then show "write_current_buffer io_ok' (e, disk0) = Inr (e, disk0)"
    by (simp add: write_current_buffer_def)
qed

text \<open>
  The invariant at work: the example recorder as constructed, after a chunk of four samples
  (one file written, two samples kept), and a write on its empty buffer.
\<close>

theorem recorder_invariant_witness:
  "recorder_inv ring_example_start \<and>
   recorder_inv (ring_example_start\<lparr>current_file_index := 1, audio_buffer := [[3, 4]],
                                     buffer_sample_count := 2\<rparr>) \<and>
   write_current_buffer False (ring_example_start, []) = Inr (ring_example_start, [])"
proof -
  note inv = recorder_invariant [of 10 True "''./debug_recordings''" 1 2 1 ring_example_start
      ring_example_start True "[1, 0, 2, 0, 3, 0, 4, 0]" "[]"
      "ring_example_start\<lparr>current_file_index := 1, audio_buffer := [[3, 4]],
                           buffer_sample_count := 2\<rparr>"
      "[\<lparr>file_index = 0, frames = [1, 2], succeeded = True\<rparr>]"
      ring_example_start False "[]"]
  have start: "recorder_inv ring_example_start"
    using inv ring_example_init by simp
  have "recorder_inv (ring_example_start\<lparr>current_file_index := 1, audio_buffer := [[3, 4]],
                                          buffer_sample_count := 2\<rparr>)"
    using inv start ring_example_long_chunk by blast
  moreover have "audio_buffer ring_example_start = []"
    by (simp add: ring_example_start_def)
  then have "write_current_buffer False (ring_example_start, []) = Inr (ring_example_start, [])"
    using inv by blast
  ultimately show ?thesis using start by simp
qed

subsection \<open>The ring of files\<close>

lemma ring_step:
  assumes inv: "ring_inv spf nf fed (r, disk)"
    and pos: "0 < spf" "0 < nf"
    and ev: "even (length c)"
    and le: "int (length c div 2) \<le> spf"
  shows "\<exists>r' disk'. process_chunk io c (r, disk) = Inr (r', disk') \<and>
           ring_inv spf nf (fed @ samples_of c) (r', disk') \<and>
           (\<forall>w \<in> set disk'. w \<in> set disk \<or> succeeded w = io)"
proof -
  let ?s = "samples_of c"
  let ?r1 = "r\<lparr>audio_buffer := audio_buffer r @ [?s],
                buffer_sample_count := buffer_sample_count r + int (length ?s)\<rparr>"
  let ?full = "concat (audio_buffer r) @ ?s"
  have fb: "frombuffer c = Inr ?s" using ev by (rule frombuffer_even)
  have cfg: "samples_per_file r = spf" "num_files r = nf"
    and cnt: "buffer_sample_count r = int (length (concat (audio_buffer r)))"
    and lt: "buffer_sample_count r < spf"
    and fl: "\<forall>w \<in> set disk. int (length (frames w)) = spf"
    and fed: "concat (map frames disk) @ concat (audio_buffer r) = fed"
    and idx: "current_file_index r = int (length disk) mod nf"
    and idxs: "map file_index disk = map (\<lambda>i. int i mod nf) [0..<length disk]"
    using inv by (simp_all add: ring_inv_def list_all_iff)
  have len_s: "int (length ?s) \<le> spf" using le by (simp add: length_samples_of)
  have len_full: "int (length ?full) = buffer_sample_count r + int (length ?s)"
    using cnt by simp
  show ?thesis
  proof (cases "buffer_sample_count r + int (length ?s) \<ge> spf")
    case False
    then have "process_chunk io c (r, disk) = Inr (?r1, disk)"
      using fb cfg by (simp add: process_chunk_def)
    moreover have "ring_inv spf nf (fed @ ?s) (?r1, disk)"
      using False cfg cnt fl fed idx idxs by (simp add: ring_inv_def list_all_iff)
    ultimately show ?thesis by blast
  next
    case True
    let ?w = "\<lparr>file_index = current_file_index r, frames = slice_to spf ?full, succeeded = io\<rparr>"
    let ?idx' = "(current_file_index r + 1) mod nf"
    have "nat spf \<le> length ?full" using True pos len_full by linarith
    then have "length (slice_to spf ?full) = nat spf"
      using pos by (simp add: slice_to_def)
    then have take_len: "int (length (slice_to spf ?full)) = spf"
      using pos by simp
    have idx': "?idx' = int (length (disk @ [?w])) mod nf"
      using idx by (simp add: mod_add_right_eq add.commute)
    have idxs': "map file_index (disk @ [?w]) = map (\<lambda>i. int i mod nf) [0..<length (disk @ [?w])]"
      using idxs idx by simp
    have fl': "\<forall>w \<in> set (disk @ [?w]). int (length (frames w)) = spf"
      using fl take_len by simp
    show ?thesis
    proof (cases "int (length ?full) > spf")
      case gt: True
      let ?rem = "slice_from spf ?full"
      let ?r2 = "?r1\<lparr>current_file_index := ?idx', audio_buffer := [?rem],
                     buffer_sample_count := int (length ?rem)\<rparr>"
      have pc: "process_chunk io c (r, disk) = Inr (?r2, disk @ [?w])"
        using fb cfg True gt pos
        by (simp add: process_chunk_def write_current_buffer_def Let_def)
      have rem_len: "int (length ?rem) < spf"
        using gt lt len_s len_full pos by (simp add: slice_from_def)
      have fed': "concat (map frames (disk @ [?w])) @ concat [?rem] = fed @ ?s"
        using fed slice_to_from [of spf ?full] by (simp flip: append_assoc) (simp add: append_assoc)
      have "ring_inv spf nf (fed @ ?s) (?r2, disk @ [?w])"
        unfolding ring_inv_def list_all_iff using cfg rem_len fl' fed' idx' idxs' by simp
      with pc show ?thesis by auto
    next
      case ngt: False
      let ?r2 = "?r1\<lparr>current_file_index := ?idx', audio_buffer := [],
                     buffer_sample_count := 0\<rparr>"
      have pc: "process_chunk io c (r, disk) = Inr (?r2, disk @ [?w])"
        using fb cfg True ngt pos
        by (simp add: process_chunk_def write_current_buffer_def Let_def)
      have eq: "int (length ?full) = spf" using True ngt len_full by simp
      then have "slice_to spf ?full = ?full" using pos by (simp add: slice_to_def)
      then have fed': "concat (map frames (disk @ [?w])) @ concat [] = fed @ ?s"
        using fed by (simp flip: append_assoc)
      have "ring_inv spf nf (fed @ ?s) (?r2, disk @ [?w])"
        unfolding ring_inv_def list_all_iff using cfg pos fl' fed' idx' idxs' by simp
      with pc show ?thesis by auto
    qed
  qed
qed


lemma ring_run:
  assumes pos: "0 < spf" "0 < nf"
    and inv: "ring_inv spf nf fed st"
    and cs: "\<forall>c \<in> set cs. even (length (snd c)) \<and> int (length (samples_of (snd c))) \<le> spf"
  shows "\<exists>st'. process_chunks cs st = Inr st' \<and>
           ring_inv spf nf (fed @ concat (map (samples_of \<circ> snd) cs)) st' \<and>
           (\<forall>w \<in> set (snd st'). w \<in> set (snd st) \<or> succeeded w \<in> fst ` set cs)"
  using inv cs
proof (induction cs arbitrary: st fed)
  case Nil
  then show ?case by simp
next
  case (Cons a cs)
  obtain io c where a: "a = (io, c)" by (cases a)
  obtain r disk where st: "st = (r, disk)" by (cases st)
  have ev: "even (length c)" and le: "int (length c div 2) \<le> spf"
    using Cons.prems(2) a by (simp_all add: length_samples_of)
  from ring_step [OF Cons.prems(1) [unfolded st] pos ev le, of io]
  obtain r' disk' where pc: "process_chunk io c (r, disk) = Inr (r', disk')"
    and inv': "ring_inv spf nf (fed @ samples_of c) (r', disk')"
    and su: "\<forall>w \<in> set disk'. w \<in> set disk \<or> succeeded w = io"
    by blast
  have rest: "\<forall>c \<in> set cs. even (length (snd c)) \<and> int (length (samples_of (snd c))) \<le> spf"
    using Cons.prems(2) by simp
  from Cons.IH [OF inv' rest]
  obtain st' where run: "process_chunks cs (r', disk') = Inr st'"
    and inv'': "ring_inv spf nf ((fed @ samples_of c) @ concat (map (samples_of \<circ> snd) cs)) st'"
    and su': "\<forall>w \<in> set (snd st'). w \<in> set disk' \<or> succeeded w \<in> fst ` set cs"
    by (metis snd_conv)
  have "process_chunks (a # cs) st = Inr st'"
    using pc run a st by simp
  moreover have "ring_inv spf nf (fed @ concat (map (samples_of \<circ> snd) (a # cs))) st'"
    using inv'' a by simp
  moreover have "\<forall>w \<in> set (snd st'). w \<in> set (snd st) \<or> succeeded w \<in> fst ` set (a # cs)"
    using su su' a st by auto
  ultimately show ?case by blast
qed

lemma ring_total:
  assumes "0 < (s::int)" and "0 \<le> b" and "b < s" and "int m * s + b = int k * s"
  shows "b = 0 \<and> m = k"
proof -
  have "b mod s = b" using assms by simp
  moreover have "(int m * s + b) mod s = b mod s" by simp
  moreover have "(int k * s) mod s = 0" by simp
  ultimately have b0: "b = 0" using assms(4) by metis
  then have "int m * s = int k * s" using assms(4) by simp
  then have "m = k" using assms(1) by simp
  with b0 show ?thesis by simp
qed

text \<open>
  C6, as the code has it. A recorder constructed with at least one file and a positive
  \<open>samples_per_file\<close> is fed chunks of whole samples, none longer than
  \<open>samples_per_file\<close>, that total exactly \<open>k\<close> times \<open>samples_per_file\<close> samples.
  Then no call raises, exactly \<open>k\<close> files are written, each of exactly
  \<open>samples_per_file\<close> samples, under the indices \<open>0, 1, ...\<close> modulo \<open>num_files\<close>;
  the files in order are the samples fed in order, so that nothing is lost or repeated where
  one file ends and the next begins; the buffer is empty at the end; and when no write fails
  every file is on disk. (A chunk longer than a file makes only one write, see the
  counterexample.)
\<close>

theorem ring_round_trip:
  assumes init: "RollingAudioRecorder_init ok dir n_files duration rate chans = Inr r0"
    and pos: "0 < n_files" "0 < rate * duration"
    and cs: "\<forall>c \<in> set cs. even (length (snd c)) \<and>
               int (length (samples_of (snd c))) \<le> rate * duration"
    and total: "int (length (concat (map (samples_of \<circ> snd) cs))) = int k * (rate * duration)"
  shows "\<exists>r disk. process_chunks cs (r0, []) = Inr (r, disk) \<and>
           length disk = k \<and>
           (\<forall>w \<in> set disk. int (length (frames w)) = samples_per_file r0) \<and>
           map file_index disk = map (\<lambda>i. int i mod n_files) [0..<k] \<and>
           concat (map frames disk) = concat (map (samples_of \<circ> snd) cs) \<and>
           concat (audio_buffer r) = [] \<and> buffer_sample_count r = 0 \<and>
           current_file_index r = int k mod n_files \<and>
           ((\<forall>c \<in> set cs. fst c) \<longrightarrow> (\<forall>w \<in> set disk. succeeded w))"
proof -
  let ?spf = "rate * duration"
  let ?fed = "concat (map (samples_of \<circ> snd) cs)"
  have r0: "r0 = \<lparr>output_dir = dir, num_files = n_files, duration_seconds = duration,
                sample_rate = rate, channels = chans, sample_width = 2,
                samples_per_file = rate * duration, current_file_index = 0,
                audio_buffer = [], buffer_sample_count = 0\<rparr>"
    using init by (simp add: RollingAudioRecorder_init_def split: if_splits)
  have inv0: "ring_inv ?spf n_files [] (r0, [])"
    using pos by (simp add: ring_inv_def r0)
  from ring_run [OF pos(2) pos(1) inv0 cs]
  obtain r disk where run: "process_chunks cs (r0, []) = Inr (r, disk)"
    and inv: "ring_inv ?spf n_files ?fed (r, disk)"
    and su: "\<forall>w \<in> set disk. succeeded w \<in> fst ` set cs"
    by auto
  have cnt: "buffer_sample_count r = int (length (concat (audio_buffer r)))"
    and lt: "buffer_sample_count r < ?spf"
    and fl: "\<forall>w \<in> set disk. int (length (frames w)) = ?spf"
    and fed: "concat (map frames disk) @ concat (audio_buffer r) = ?fed"
    and idx: "current_file_index r = int (length disk) mod n_files"
    and idxs: "map file_index disk = map (\<lambda>i. int i mod n_files) [0..<length disk]"
    using inv by (simp_all add: ring_inv_def list_all_iff)
  have "length (concat (map frames disk)) = length disk * nat ?spf"
    using fl
  proof (induction disk)
    case Nil
    then show ?case by simp
  next
    case (Cons w ws)
    then have "length (frames w) = nat ?spf" by auto
    with Cons show ?case by simp
  qed
  then have "int (length (concat (map frames disk))) = int (length disk) * ?spf"
    using pos by simp
  moreover have "int (length ?fed) =
      int (length (concat (map frames disk))) + int (length (concat (audio_buffer r)))"
    by (simp flip: fed)
  ultimately have "int (length disk) * ?spf + buffer_sample_count r = int k * ?spf"
    using total cnt by simp
  from ring_total [OF pos(2) _ lt this] cnt
  have b0: "buffer_sample_count r = 0" and len: "length disk = k" by simp_all
  have empty: "concat (audio_buffer r) = []" using b0 cnt by simp
  have "concat (map frames disk) = ?fed" using fed empty by simp
  moreover have "\<forall>w \<in> set disk. int (length (frames w)) = samples_per_file r0"
    using fl by (simp add: r0)
  moreover have "(\<forall>c \<in> set cs. fst c) \<longrightarrow> (\<forall>w \<in> set disk. succeeded w)"
    using su by auto
  ultimately show ?thesis
    using run len idx idxs b0 empty by simp
qed


text \<open>
  Three chunks of one, two and one sample into the example recorder of two samples a file:
  two files, the second one begun with the sample carried over from the second chunk.
\<close>

theorem ring_round_trip_witness:
  "RollingAudioRecorder_init True ''./debug_recordings'' 10 1 2 1 = Inr ring_example_start \<and>
   list_all (\<lambda>c. even (length (snd c)) \<and> int (length (samples_of (snd c))) \<le> 2 * 1)
     [(True, [1, 0]), (True, [2, 0, 3, 0]), (False, [4, 0])] \<and>
   int (length (concat (map (samples_of \<circ> snd)
     [(True, [1, 0]), (True, [2, 0, 3, 0]), (False, [4, 0])]))) = int 2 * (2 * 1) \<and>
   (\<exists>r disk. process_chunks [(True, [1, 0]), (True, [2, 0, 3, 0]), (False, [4, 0])]
                 (ring_example_start, []) = Inr (r, disk) \<and>
        length disk = 2 \<and>
        list_all (\<lambda>w. int (length (frames w)) = samples_per_file ring_example_start) disk \<and>
        map file_index disk = map (\<lambda>i. int i mod 10) [0..<2] \<and>
        concat (map frames disk) = concat (map (samples_of \<circ> snd)
          [(True, [1, 0]), (True, [2, 0, 3, 0]), (False, [4, 0])]) \<and>
        concat (audio_buffer r) = [] \<and> buffer_sample_count r = 0 \<and>
        current_file_index r = int 2 mod 10)"
proof -
  let ?cs = "[(True, [1, 0]), (True, [2, 0, 3, 0]), (False, [4, 0 :: byte])]"
  have h1: "(0::int) < 10" and h2: "(0::int) < 2 * 1" by simp_all
  have h3: "\<forall>c \<in> set ?cs. even (length (snd c)) \<and> int (length (samples_of (snd c))) \<le> 2 * 1"
    by simp
  have h4: "int (length (concat (map (samples_of \<circ> snd) ?cs))) = int 2 * (2 * 1)"
    by simp
  from ring_round_trip [OF ring_example_init h1 h2 h3 h4]
  show ?thesis using ring_example_init h3 h4 by (simp add: list_all_iff)
qed

text \<open>
  C6 as stated fails on a chunk longer than a file: \<^verbatim>\<open>process_chunk\<close> writes at most
  one file a call. One chunk of four samples is twice \<open>samples_per_file = 2\<close>, yet one file
  is written and two samples stay in the buffer.
\<close>

theorem ring_round_trip_counterexample:
  "RollingAudioRecorder_init True ''./debug_recordings'' 10 1 2 1 = Inr ring_example_start \<and>
   int (length (concat (map (samples_of \<circ> snd) [(True, [1, 0, 2, 0, 3, 0, 4, 0])]))) =
     2 * samples_per_file ring_example_start \<and>
   process_chunks [(True, [1, 0, 2, 0, 3, 0, 4, 0])] (ring_example_start, []) =
     Inr (ring_example_start\<lparr>current_file_index := 1, audio_buffer := [[3, 4]],
                              buffer_sample_count := 2\<rparr>,
          [\<lparr>file_index = 0, frames = [1, 2], succeeded = True\<rparr>])"
  using ring_example_init ring_example_long_chunk by (simp add: ring_example_start_def)

subsection \<open>Capture control\<close>

lemma capture_inv_iff:
  "capture_inv d \<longleftrightarrow> (\<forall>i < length (threads d). threads d ! i \<longrightarrow> recording_thread d = Some i)"
  by (simp add: capture_inv_def list_all_iff Ball_def)

lemma thread_alive_iff:
  "thread_alive d \<longleftrightarrow> (\<exists>i. recording_thread d = Some i \<and> i < length (threads d) \<and> threads d ! i)"
  by (cases "recording_thread d") (simp_all add: thread_alive_def)

lemma active_threads_card:
  "active_threads d = card {i. i < length (threads d) \<and> threads d ! i}"
  by (simp add: active_threads_def length_filter_conv_card)

lemma active_alive:
  assumes inv: "capture_inv d" and alive: "thread_alive d"
  shows "active_threads d = 1"
proof -
  from alive obtain i where i: "recording_thread d = Some i" "i < length (threads d)" "threads d ! i"
    unfolding thread_alive_iff by blast
  have "{j. j < length (threads d) \<and> threads d ! j} = {i}"
  proof (rule set_eqI)
    fix j
    show "j \<in> {j. j < length (threads d) \<and> threads d ! j} \<longleftrightarrow> j \<in> {i}"
    proof
      assume "j \<in> {j. j < length (threads d) \<and> threads d ! j}"
      then have "j < length (threads d)" "threads d ! j" by simp_all
      with inv have "recording_thread d = Some j" unfolding capture_inv_iff by blast
      with i(1) show "j \<in> {i}" by simp
    next
      assume "j \<in> {i}"
      with i show "j \<in> {j. j < length (threads d) \<and> threads d ! j}" by simp
    qed
  qed
  then show ?thesis by (simp add: active_threads_card)
qed


lemma active_dead:
  assumes inv: "capture_inv d" and dead: "\<not> thread_alive d"
  shows "active_threads d = 0"
proof -
  have "\<not> (j < length (threads d) \<and> threads d ! j)" for j
  proof
    assume j: "j < length (threads d) \<and> threads d ! j"
    with inv have "recording_thread d = Some j" unfolding capture_inv_iff by blast
    with j have "thread_alive d" unfolding thread_alive_iff by blast
    with dead show False by simp
  qed
  then have "{j. j < length (threads d) \<and> threads d ! j} = {}" by blast
  then show ?thesis by (simp add: active_threads_card)
qed

lemma thread_alive_start: "thread_alive (start_recording d)"
  by (simp add: start_recording_def thread_alive_def nth_append)

lemma start_recording_alive: "thread_alive d \<Longrightarrow> start_recording d = d"
  by (simp add: start_recording_def)

lemma capture_inv_start:
  assumes inv: "capture_inv d"
  shows "capture_inv (start_recording d)"
proof (cases "thread_alive d")
  case True
  with inv show ?thesis by (simp add: start_recording_def)
next
  case False
  have dead: "\<not> threads d ! j" if "j < length (threads d)" for j
  proof
    assume "threads d ! j"
    with inv that have "recording_thread d = Some j" unfolding capture_inv_iff by blast
    with that \<open>threads d ! j\<close> have "thread_alive d" unfolding thread_alive_iff by blast
    with False show False by simp
  qed
  let ?d = "d\<lparr>recording := True, recording_thread := Some (length (threads d)),
              threads := threads d @ [True]\<rparr>"
  have eq: "start_recording d = ?d" using False by (simp add: start_recording_def)
  have "capture_inv ?d"
    unfolding capture_inv_iff
  proof (intro allI impI)
    fix i
    assume "i < length (threads ?d)" and al: "threads ?d ! i"
    then have "i < length (threads d) \<or> i = length (threads d)" by auto
    then show "recording_thread ?d = Some i"
    proof
      assume "i < length (threads d)"
      with al dead show ?thesis by (simp add: nth_append)
    next
      assume "i = length (threads d)"
      then show ?thesis by simp
    qed
  qed
  with eq show ?thesis by simp
qed

text \<open>
  C7. \<^verbatim>\<open>start_recording\<close> while the capture thread is alive changes nothing, so that
  calling it twice in a row leaves the detector as calling it once does. A capture thread is
  alive afterwards; and when no thread but the current one was alive before, which
  \<^verbatim>\<open>start_recording\<close> keeps true, exactly one capture thread is alive after one call and
  after two.
\<close>

theorem start_recording_idempotent:
  "(thread_alive d \<longrightarrow> start_recording d = d) \<and>
   start_recording (start_recording d) = start_recording d \<and>
   thread_alive (start_recording d) \<and>
   (capture_inv d \<longrightarrow>
      active_threads (start_recording d) = 1 \<and>
      active_threads (start_recording (start_recording d)) = 1 \<and>
      capture_inv (start_recording d))"
proof (intro conjI impI)
  assume "thread_alive d"
  then show "start_recording d = d" by (rule start_recording_alive)
next
  show twice: "start_recording (start_recording d) = start_recording d"
    by (rule start_recording_alive) (rule thread_alive_start)
  show "thread_alive (start_recording d)" by (rule thread_alive_start)
  assume inv: "capture_inv d"
  then have inv': "capture_inv (start_recording d)" by (rule capture_inv_start)
  then show one: "active_threads (start_recording d) = 1"
    by (rule active_alive) (rule thread_alive_start)
  show "active_threads (start_recording (start_recording d)) = 1"
    using one twice by simp
  show "capture_inv (start_recording d)" by (rule inv')
qed

text \<open>
  On the example detector: started while listening it stays as it is, and started twice from
  fresh it has one thread.
\<close>

theorem start_recording_idempotent_witness:
  "start_recording (listening_example [''alpha'']) = listening_example [''alpha''] \<and>
   start_recording (start_recording fresh_example) = start_recording fresh_example \<and>
   thread_alive (start_recording fresh_example) \<and>
   active_threads (start_recording fresh_example) = 1 \<and>
   active_threads (start_recording (start_recording fresh_example)) = 1 \<and>
   capture_inv (start_recording fresh_example)"
proof -
  have a: "thread_alive (listening_example [''alpha''])"
    by (simp add: thread_alive_def listening_example_def)
  have i: "capture_inv fresh_example"
    by (simp add: capture_inv_def fresh_example_def listening_example_def)
  from start_recording_idempotent [of "listening_example [''alpha'']"] a
  have "start_recording (listening_example [''alpha'']) = listening_example [''alpha'']" by blast
  with start_recording_idempotent [of fresh_example] i show ?thesis by blast
qed

subsection \<open>Model selection\<close>

lemma init_fields:
  assumes "WakeWordDetector_init env parse_float makedirs_ok models_override arg = Inr d"
  shows "custom_model_path d =
           (if truthy arg then arg
            else if truthy (env ''CUSTOM_MODEL_PATH'') then env ''CUSTOM_MODEL_PATH'' else None)"
    and "wake_word_models d =
           (if truthy arg \<or> truthy (env ''CUSTOM_MODEL_PATH'') then None
            else if truthy models_override then models_override
            else Some (split_comma (getenv_default env ''WAKE_WORD_MODELS'' ''hey_jarvis'')))"
    and "model d = None" and "trace d = []"
  using assms
  by (auto simp: WakeWordDetector_init_def Let_def split: sum.splits if_splits)

lemma initialize_model_custom:
  assumes "custom_model_path d = Some p" and "p \<noteq> []"
  shows "initialize_model path_exists download_ok load_ok d =
           (if path_exists p \<and> load_ok (Some [p])
            then (True, d\<lparr>model := Some (Model (Some [p]))\<rparr>) else (False, d))"
  using assms by (simp add: initialize_model_def truthy_def)

text \<open>
  C9. When a custom model path is supplied, as the constructor's argument or in
  \<^verbatim>\<open>CUSTOM_MODEL_PATH\<close> (a non-empty string; the argument goes first), the detector
  holds that path and its list of named models is \<^verbatim>\<open>None\<close>, whatever the override and
  \<^verbatim>\<open>WAKE_WORD_MODELS\<close> say. \<^verbatim>\<open>initialize_model\<close> then loads the model of that path
  alone, or nothing when the file is missing or the load fails; it asks for no download and
  leaves the list at \<^verbatim>\<open>None\<close>.
\<close>

theorem custom_model_precedence:
  assumes init: "WakeWordDetector_init env parse_float makedirs_ok models_override arg = Inr d"
    and supplied: "truthy arg \<or> truthy (env ''CUSTOM_MODEL_PATH'')"
  shows "custom_model_path d = (if truthy arg then arg else env ''CUSTOM_MODEL_PATH'') \<and>
         wake_word_models d = None \<and>
         (\<exists>p. custom_model_path d = Some p \<and> p \<noteq> [] \<and>
              initialize_model path_exists download_ok load_ok d =
                (if path_exists p \<and> load_ok (Some [p])
                 then (True, d\<lparr>model := Some (Model (Some [p]))\<rparr>) else (False, d))) \<and>
         trace (snd (initialize_model path_exists download_ok load_ok d)) = [] \<and>
         wake_word_models (snd (initialize_model path_exists download_ok load_ok d)) = None"
proof -
  have path: "custom_model_path d = (if truthy arg then arg else env ''CUSTOM_MODEL_PATH'')"
    using init_fields(1) [OF init] supplied by auto
  have models: "wake_word_models d = None"
    using init_fields(2) [OF init] supplied by simp
  have "truthy (custom_model_path d)" using path supplied by auto
  then obtain p where p: "custom_model_path d = Some p" "p \<noteq> []"
    by (auto simp: truthy_def split: option.splits)
  note im = initialize_model_custom [OF p, of path_exists download_ok load_ok]
  have "trace (snd (initialize_model path_exists download_ok load_ok d)) = []"
    using im init_fields(4) [OF init] by simp
  moreover have "wake_word_models (snd (initialize_model path_exists download_ok load_ok d)) = None"
    using im models by simp
  ultimately show ?thesis using path models p im by blast
qed

lemma custom_example_init:
  "WakeWordDetector_init no_env float_example True (Some [''alexa'']) (Some ''my.onnx'') =
     Inr custom_example"
  by (simp add: WakeWordDetector_init_def no_env_def float_example_def truthy_def
      getenv_default_def lower_def lower_char_def custom_example_def)

text \<open>
  With the path \<open>my.onnx\<close> and the override \<open>alexa\<close> both given, only \<open>my.onnx\<close>
  is loaded.
\<close>

theorem custom_model_precedence_witness:
  "WakeWordDetector_init no_env float_example True (Some [''alexa'']) (Some ''my.onnx'') =
     Inr custom_example \<and>
   custom_model_path custom_example = Some ''my.onnx'' \<and>
   wake_word_models custom_example = None \<and>
   initialize_model (\<lambda>p. True) (\<lambda>ms. True) (\<lambda>ms. True) custom_example =
     (True, custom_example\<lparr>model := Some (Model (Some [''my.onnx'']))\<rparr>) \<and>
   trace (snd (initialize_model (\<lambda>p. True) (\<lambda>ms. True) (\<lambda>ms. True) custom_example)) = []"
proof -
  have s: "truthy (Some ''my.onnx'') \<or> truthy (no_env ''CUSTOM_MODEL_PATH'')"
    by (simp add: truthy_def)
  note c = custom_model_precedence [OF custom_example_init s,
      of "\<lambda>p. True" "\<lambda>ms. True" "\<lambda>ms. True", simplified truthy_def, simplified]
  from c have path: "custom_model_path custom_example = Some ''my.onnx''" by blast
  from c obtain p where "custom_model_path custom_example = Some p"
    and im: "initialize_model (\<lambda>p. True) (\<lambda>ms. True) (\<lambda>ms. True) custom_example =
      (True, custom_example\<lparr>model := Some (Model (Some [p]))\<rparr>)"
    by blast
  with path have "p = ''my.onnx''" by simp
  with im c custom_example_init show ?thesis by simp
qed

subsection \<open>Traces of the detection loop\<close>

lemma detections_append: "detections (xs @ ys) = detections xs @ detections ys"
  by (induction xs rule: detections.induct) simp_all

lemma events_since_append: "trace d' = trace d @ es \<Longrightarrow> events_since d d' = es"
  by (simp add: events_since_def)

lemma stop_recording_keeps [simp]:
  "trace (stop_recording x d) = trace d" "threshold (stop_recording x d) = threshold d"
  "audio_queue (stop_recording x d) = audio_queue d"
  by (simp_all add: stop_recording_def Let_def split: option.splits)

lemma start_recording_keeps [simp]:
  "trace (start_recording d) = trace d" "threshold (start_recording d) = threshold d"
  "audio_queue (start_recording d) = audio_queue d"
  by (simp_all add: start_recording_def)

lemma emit_fields [simp]:
  "trace (emit e d) = trace d @ [e]" "threshold (emit e d) = threshold d"
  "audio_queue (emit e d) = audio_queue d"
  by (simp_all add: emit_def)

lemma wake_word_detected_played:
  assumes "mpv h \<noteq> PlayInterrupted"
  shows "fst (wake_word_detected h n s d) = None"
    and "trace (snd (wake_word_detected h n s d)) =
           trace d @ [WakeWordDetected n s, StopRecording, ClearQueue, ResetModel,
                      PlayVideo (mpv h), ListeningAgain, StartRecording]"
    and "threshold (snd (wake_word_detected h n s d)) = threshold d"
    and "audio_queue (snd (wake_word_detected h n s d)) = []"
  using assms
  by (cases "mpv h"; simp add: wake_word_detected_def play_video_def Let_def)+

lemma wake_word_detected_interrupted:
  assumes "mpv h = PlayInterrupted"
  shows "fst (wake_word_detected h n s d) = Some KeyboardInterrupt"
    and "trace (snd (wake_word_detected h n s d)) =
           trace d @ [WakeWordDetected n s, StopRecording, ClearQueue, ResetModel,
                      PlayVideo PlayInterrupted]"
    and "threshold (snd (wake_word_detected h n s d)) = threshold d"
    and "audio_queue (snd (wake_word_detected h n s d)) = []"
  using assms
  by (simp_all add: wake_word_detected_def play_video_def Let_def)

lemma monitor_handled:
  "out \<noteq> PlayInterrupted \<Longrightarrow>
   foldl monitor Listen ([WakeWordDetected n s, StopRecording, ClearQueue, ResetModel,
                          PlayVideo out, ListeningAgain, StartRecording] @ es) =
   foldl monitor Listen es"
  by simp

lemma check_results_events:
  "\<exists>es. trace (snd (check_results hs i items d)) = trace d @ es \<and>
        threshold (snd (check_results hs i items d)) = threshold d \<and>
        (fst (check_results hs i items d) = None \<and> foldl monitor Listen es = Listen \<or>
         fst (check_results hs i items d) = Some KeyboardInterrupt \<and>
           foldl monitor Listen es = Closing) \<and>
        (detections es = [] \<longleftrightarrow> (\<forall>item \<in> set items. \<not> snd item > threshold d)) \<and>
        ((\<forall>j. mpv (hs j) \<noteq> PlayInterrupted) \<longrightarrow>
           fst (check_results hs i items d) = None \<and>
           detections es = filter (\<lambda>item. snd item > threshold d) items)"
proof (induction items arbitrary: i d)
  case Nil
  show ?case by simp
next
  case (Cons item items)
  obtain n s where item: "item = (n, s)" by (cases item)
  show ?case
  proof (cases "s > threshold d")
    case False
    from Cons.IH [of "Suc i" d] obtain es where
      es: "trace (snd (check_results hs (Suc i) items d)) = trace d @ es"
        "threshold (snd (check_results hs (Suc i) items d)) = threshold d"
        "fst (check_results hs (Suc i) items d) = None \<and> foldl monitor Listen es = Listen \<or>
         fst (check_results hs (Suc i) items d) = Some KeyboardInterrupt \<and>
           foldl monitor Listen es = Closing"
        "detections es = [] \<longleftrightarrow> (\<forall>item \<in> set items. \<not> snd item > threshold d)"
        "(\<forall>j. mpv (hs j) \<noteq> PlayInterrupted) \<longrightarrow>
           fst (check_results hs (Suc i) items d) = None \<and>
           detections es = filter (\<lambda>item. snd item > threshold d) items"
      by blast
    have eq: "check_results hs i (item # items) d = check_results hs (Suc i) items d"
      using False item by simp
    show ?thesis
      unfolding eq using es False item by (intro exI [of _ es]) simp
  next
    case True
    show ?thesis
    proof (cases "mpv (hs i) = PlayInterrupted")
      case int: True
      let ?es = "[WakeWordDetected n s, StopRecording, ClearQueue, ResetModel,
                  PlayVideo PlayInterrupted]"
      have eq: "check_results hs i (item # items) d = wake_word_detected (hs i) n s d"
        using True item wake_word_detected_interrupted(1) [OF int, of n s d]
        by (cases "wake_word_detected (hs i) n s d") simp
      show ?thesis
        unfolding eq
        using wake_word_detected_interrupted [OF int, of n s d] True item int
        by (intro exI [of _ ?es]) auto
    next
      case play: False
      let ?h = "[WakeWordDetected n s, StopRecording, ClearQueue, ResetModel,
                 PlayVideo (mpv (hs i)), ListeningAgain, StartRecording]"
      let ?d1 = "snd (wake_word_detected (hs i) n s d)"
      note w = wake_word_detected_played [OF play, of n s d]
      from Cons.IH [of "Suc i" ?d1] obtain es where
        es: "trace (snd (check_results hs (Suc i) items ?d1)) = trace ?d1 @ es"
          "threshold (snd (check_results hs (Suc i) items ?d1)) = threshold ?d1"
          "fst (check_results hs (Suc i) items ?d1) = None \<and> foldl monitor Listen es = Listen \<or>
           fst (check_results hs (Suc i) items ?d1) = Some KeyboardInterrupt \<and>
             foldl monitor Listen es = Closing"
          "detections es = [] \<longleftrightarrow> (\<forall>item \<in> set items. \<not> snd item > threshold ?d1)"
          "(\<forall>j. mpv (hs j) \<noteq> PlayInterrupted) \<longrightarrow>
             fst (check_results hs (Suc i) items ?d1) = None \<and>
             detections es = filter (\<lambda>item. snd item > threshold ?d1) items"
        by blast
      have eq: "check_results hs i (item # items) d = check_results hs (Suc i) items ?d1"
        using True item w(1) by (cases "wake_word_detected (hs i) n s d") simp
      have mon: "foldl monitor Listen (?h @ es) = foldl monitor Listen es"
        using play by simp
      have det: "detections (?h @ es) = (n, s) # detections es"
        by simp
      show ?thesis
        unfolding eq
      proof (intro exI [of _ "?h @ es"] conjI)
        show "trace (snd (check_results hs (Suc i) items ?d1)) = trace d @ ?h @ es"
          using es(1) w(2) by simp
        show "threshold (snd (check_results hs (Suc i) items ?d1)) = threshold d"
          using es(2) w(3) by simp
        show "fst (check_results hs (Suc i) items ?d1) = None \<and>
                foldl monitor Listen (?h @ es) = Listen \<or>
              fst (check_results hs (Suc i) items ?d1) = Some KeyboardInterrupt \<and>
                foldl monitor Listen (?h @ es) = Closing"
          using es(3) unfolding mon .
        show "detections (?h @ es) = [] \<longleftrightarrow>
                (\<forall>item \<in> set (item # items). \<not> snd item > threshold d)"
          unfolding det using True item by simp
        show "(\<forall>j. mpv (hs j) \<noteq> PlayInterrupted) \<longrightarrow>
                fst (check_results hs (Suc i) items ?d1) = None \<and>
                detections (?h @ es) = filter (\<lambda>item. snd item > threshold d) (item # items)"
          unfolding det using es(5) w(3) True item by simp
      qed
    qed
  qed
qed

lemma recording_worker_keeps [simp]:
  "trace (recording_worker cs d) = trace d" "threshold (recording_worker cs d) = threshold d"
  by (simp_all add: recording_worker_def split: option.splits list.splits)

lemma debug_record_keeps:
  assumes "debug_record ok chunk d = Inr d'"
  shows "trace d' = trace d" and "threshold d' = threshold d"
  using assms
  by (auto simp: debug_record_def split: option.splits sum.splits)

lemma cleanup_trace [simp]: "trace (cleanup x d) = trace d @ [StopRecording, Cleanup]"
  by (simp add: cleanup_def emit_def)

text \<open>The shapes in which the body of the loop can end.\<close>

lemma loop_body_cases:
  obtains
    (interrupt) "ctrl_c t" "loop_body t d = (Some KeyboardInterrupt, recording_worker (captured t) d)"
  | (empty) "\<not> ctrl_c t" "audio_queue (recording_worker (captured t) d) = []"
      "loop_body t d = (Some Empty, recording_worker (captured t) d)"
  | (unscored) e d' where "\<not> ctrl_c t" "loop_body t d = (Some e, d')" "trace d' = trace d"
      "threshold d' = threshold d"
  | (failed) e d' where "\<not> ctrl_c t" "prediction t = Inl e" "loop_body t d = (Some e, emit Predict d')"
      "trace d' = trace d" "threshold d' = threshold d"
  | (checked) items d' where "\<not> ctrl_c t" "prediction t = Inr items"
      "loop_body t d = check_results (handlings t) 0 items (emit Predict d')"
      "trace d' = trace d" "threshold d' = threshold d"
proof (cases "ctrl_c t")
  case True
  then show ?thesis using interrupt by (simp add: loop_body_def)
next
  case nc: False
  let ?d0 = "recording_worker (captured t) d"
  show ?thesis
  proof (cases "audio_queue ?d0")
    case Nil
    then show ?thesis using nc empty by (simp add: loop_body_def)
  next
    case (Cons chunk queued)
    let ?d1 = "?d0\<lparr>audio_queue := queued\<rparr>"
    show ?thesis
    proof (cases "debug_record (write_ok t) chunk ?d1")
      case (Inl e)
      then have "loop_body t d = (Some e, ?d1)"
        using nc Cons by (simp add: loop_body_def)
      then show ?thesis using nc unscored [of e ?d1] by simp
    next
      case (Inr d2)
      note k = debug_record_keeps [OF Inr]
      show ?thesis
      proof (cases "frombuffer chunk")
        case fb: (Inl e)
        then have "loop_body t d = (Some e, d2)"
          using nc Cons Inr by (simp add: loop_body_def)
        then show ?thesis using nc k unscored [of e d2] by simp
      next
        case fb: (Inr audio_array)
        show ?thesis
        proof (cases "prediction t")
          case p: (Inl e)
          then have "loop_body t d = (Some e, emit Predict d2)"
            using nc Cons Inr fb by (simp add: loop_body_def)
          then show ?thesis using nc p k failed [of e d2] by simp
        next
          case p: (Inr items)
          then have "loop_body t d = check_results (handlings t) 0 items (emit Predict d2)"
            using nc Cons Inr fb by (simp add: loop_body_def)
          then show ?thesis using nc p k checked [of items d2] by simp
        qed
      qed
    qed
  qed
qed


lemma run_loop_step:
  "run_loop x (t # ts) d =
     (if fst (loop_body t d) = None \<or> fst (loop_body t d) = Some Empty
      then run_loop x ts (snd (loop_body t d))
      else if fst (loop_body t d) = Some KeyboardInterrupt
      then (ShutDown, cleanup x (emit ShuttingDown (snd (loop_body t d))))
      else (case fst (loop_body t d) of
              Some e \<Rightarrow> (Crashed e, cleanup x (snd (loop_body t d)))
            | None \<Rightarrow> run_loop x ts (snd (loop_body t d))))"
proof (cases "loop_body t d")
  case (Pair r d')
  show ?thesis
  proof (cases r)
    case None
    with Pair show ?thesis by simp
  next
    case (Some e)
    with Pair show ?thesis by (cases e) simp_all
  qed
qed


subsection \<open>What the monitor accepts\<close>

lemma violation_absorbs [simp]: "foldl monitor Violation es = Violation"
  by (induction es) simp_all













subsection \<open>The example runs\<close>

lemma frombuffer_silence: "frombuffer silence = Inr (samples_of silence)"
  by (rule frombuffer_even) (simp add: silence_def)

lemmas example_defs =
  listening_example_def frame_scoring_def frame_failing_def frame_unplayed_def played_def
  no_player_def frame_stalled_def stalled_def loop_body_def recording_worker_def queue_put_def debug_record_def emit_def
  wake_word_detected_def stop_recording_def start_recording_def thread_alive_def
  play_video_def cleanup_def frombuffer_silence

lemma two_labels_run:
  "check_results (\<lambda>i. played) 0 [(''alpha'', 0.7), (''beta'', 0.8)]
     (listening_example [''alpha'', ''beta'']) =
   (None, (listening_example [''alpha'', ''beta''])
     \<lparr>recording_thread := Some 2, threads := [False, False, True],
      trace := [WakeWordDetected ''alpha'' 0.7, StopRecording, ClearQueue, ResetModel,
                PlayVideo Completed, ListeningAgain, StartRecording,
                WakeWordDetected ''beta'' 0.8, StopRecording, ClearQueue, ResetModel,
                PlayVideo Completed, ListeningAgain, StartRecording]\<rparr>)"
  by (simp add: example_defs)

lemma crossing_scenario_run:
  "run_loop True crossing_scenario (listening_example [''alpha'']) =
   (Listening, (listening_example [''alpha''])
     \<lparr>recording_thread := Some 2, threads := [False, False, True],
      trace := [Predict, Predict,
                WakeWordDetected ''alpha'' 0.6, StopRecording, ClearQueue, ResetModel,
                PlayVideo Completed, ListeningAgain, StartRecording,
                Predict,
                WakeWordDetected ''alpha'' 0.9, StopRecording, ClearQueue, ResetModel,
                PlayVideo Completed, ListeningAgain, StartRecording,
                Predict]\<rparr>)"
  by (simp add: crossing_scenario_def example_defs)

lemma failing_run:
  "run_loop True [frame_failing RuntimeError, frame_scoring [(''alpha'', 0.9)]]
     (listening_example [''alpha'']) =
   (Crashed RuntimeError, (listening_example [''alpha''])
     \<lparr>recording := False, stream_open := False, threads := [False],
      trace := [Predict, StopRecording, Cleanup]\<rparr>)"
  by (simp add: example_defs)


subsection \<open>Which iterations score and which fire\<close>

lemma listening_example_fields [simp]:
  "trace (listening_example ms) = []" "threshold (listening_example ms) = 0.5"
  by (simp_all add: listening_example_def)

lemma scored_failed:
  assumes "scored t d" and "prediction t = Inl e"
  shows "\<exists>d'. loop_body t d = (Some e, emit Predict d') \<and> trace d' = trace d"
proof (cases t d rule: loop_body_cases)
  case interrupt
  with assms(1) show ?thesis by (simp add: scored_def events_since_def)
next
  case empty
  with assms(1) show ?thesis by (simp add: scored_def events_since_def)
next
  case (unscored e' d')
  with assms(1) show ?thesis by (simp add: scored_def events_since_def)
next
  case (failed e' d')
  with assms(2) show ?thesis by auto
next
  case (checked items d')
  with assms(2) show ?thesis by simp
qed


lemma check_results_detections:
  "detections (events_since d (snd (check_results hs i items d))) \<noteq> [] \<longleftrightarrow>
     (\<exists>item \<in> set items. snd item > threshold d)"
proof -
  from check_results_events [of hs i items d] obtain es where
    es: "trace (snd (check_results hs i items d)) = trace d @ es"
      "detections es = [] \<longleftrightarrow> (\<forall>item \<in> set items. \<not> snd item > threshold d)"
    by blast
  have "events_since d (snd (check_results hs i items d)) = es"
    using es(1) by (rule events_since_append)
  with es(2) show ?thesis by auto
qed

lemma loop_body_detections:
  "detections (events_since d (snd (loop_body t d))) \<noteq> [] \<longleftrightarrow>
     scored t d \<and> (\<exists>items. prediction t = Inr items \<and> (\<exists>item \<in> set items. snd item > threshold d))"
proof (cases t d rule: loop_body_cases)
  case interrupt
  then show ?thesis by (simp add: scored_def events_since_def)
next
  case empty
  then show ?thesis by (simp add: scored_def events_since_def)
next
  case (unscored e d')
  then show ?thesis by (simp add: scored_def events_since_def)
next
  case (failed e d')
  then show ?thesis by (simp add: events_since_def)
next
  case (checked items d')
  let ?d = "emit Predict d'"
  from check_results_events [of "handlings t" 0 items ?d] obtain es where
    es: "trace (snd (check_results (handlings t) 0 items ?d)) = trace ?d @ es"
      "detections es = [] \<longleftrightarrow> (\<forall>item \<in> set items. \<not> snd item > threshold ?d)"
    by blast
  have ev: "events_since d (snd (loop_body t d)) = Predict # es"
    using es(1) checked by (simp add: events_since_def)
  have "scored t d" using ev by (simp add: scored_def)
  then show ?thesis using ev es(2) checked by auto
qed

text \<open>
  C3, as the code has it. An iteration fires a detection exactly when it scores its chunk and
  some label's score is strictly above the threshold; a score equal to the threshold does not
  fire. Every scored chunk above the threshold fires: with one model, threshold 0.5 and four
  chunks scored one after the other at 0.2, 0.6, 0.9 and 0.1, the detection fires twice, at
  0.6 and again at 0.9.
\<close>

theorem fires_above_threshold:
  "(detections (events_since d (snd (loop_body t d))) \<noteq> [] \<longleftrightarrow>
      scored t d \<and>
      (\<exists>items. prediction t = Inr items \<and> (\<exists>item \<in> set items. snd item > threshold d))) \<and>
   detections (events_since d (snd (check_results hs i [(name, threshold d)] d))) = [] \<and>
   detections (trace (snd (run_loop True crossing_scenario (listening_example [''alpha'']))))
     = [(''alpha'', 0.6), (''alpha'', 0.9)]"
proof (intro conjI)
  show "detections (events_since d (snd (loop_body t d))) \<noteq> [] \<longleftrightarrow>
      scored t d \<and>
      (\<exists>items. prediction t = Inr items \<and> (\<exists>item \<in> set items. snd item > threshold d))"
    by (rule loop_body_detections)
  show "detections (events_since d (snd (check_results hs i [(name, threshold d)] d))) = []"
    using check_results_detections [of d hs i "[(name, threshold d)]"] by simp
  show "detections (trace (snd (run_loop True crossing_scenario (listening_example [''alpha'']))))
     = [(''alpha'', 0.6), (''alpha'', 0.9)]"
    by (simp add: crossing_scenario_run)
qed

text \<open>A chunk scored at 0.6 fires, a chunk scored at the threshold 0.5 does not.\<close>

theorem fires_above_threshold_witness:
  "scored (frame_scoring [(''alpha'', 0.6)]) (listening_example [''alpha'']) \<and>
   detections (events_since (listening_example [''alpha''])
     (snd (loop_body (frame_scoring [(''alpha'', 0.6)]) (listening_example [''alpha''])))) \<noteq> [] \<and>
   detections (events_since (listening_example [''alpha''])
     (snd (loop_body (frame_scoring [(''alpha'', 0.5)]) (listening_example [''alpha''])))) = []"
proof -
  have s: "scored (frame_scoring [(''alpha'', x)]) (listening_example [''alpha''])" for x
    by (simp add: scored_def events_since_def example_defs)
  have p: "prediction (frame_scoring [(''alpha'', x)]) = Inr [(''alpha'', x)]" for x
    by (simp add: frame_scoring_def)
  have th: "threshold (listening_example [''alpha'']) = 0.5" by simp
  note f = fires_above_threshold [of "listening_example [''alpha'']"]
  from f [of "frame_scoring [(''alpha'', 0.6)]"] s p th
  have a: "detections (events_since (listening_example [''alpha''])
     (snd (loop_body (frame_scoring [(''alpha'', 0.6)]) (listening_example [''alpha''])))) \<noteq> []"
    by simp
  from f [of "frame_scoring [(''alpha'', 0.5)]"] s p th
  have b: "detections (events_since (listening_example [''alpha''])
     (snd (loop_body (frame_scoring [(''alpha'', 0.5)]) (listening_example [''alpha''])))) = []"
    by simp
  from a b s show ?thesis by blast
qed

text \<open>
  C3 as stated fails on the crossing scenario: the loop has no memory of the last detection,
  so the chunk scored at 0.9 after the restart fires a second detection.
\<close>

theorem fires_once_counterexample:
  "length (detections (trace (snd (run_loop True crossing_scenario
     (listening_example [''alpha''])))) ) = 2 \<and>
   events_since (listening_example [''alpha''])
     (snd (run_loop True crossing_scenario (listening_example [''alpha'']))) =
     [Predict, Predict,
      WakeWordDetected ''alpha'' 0.6, StopRecording, ClearQueue, ResetModel,
      PlayVideo Completed, ListeningAgain, StartRecording,
      Predict,
      WakeWordDetected ''alpha'' 0.9, StopRecording, ClearQueue, ResetModel,
      PlayVideo Completed, ListeningAgain, StartRecording,
      Predict]"
  by (simp add: crossing_scenario_run events_since_def)

subsection \<open>Several labels above the threshold\<close>

text \<open>
  C1, as the code has it. The loop over the items of the score mapping handles every label
  whose score is above the threshold, one after the other in the order of the mapping, each
  with its own stop, flush, reset, action and restart; no maximum is selected. (Stated for
  actions that are not interrupted from the keyboard, which would end the loop.)
\<close>

theorem every_label_above_threshold_fires:
  assumes "\<forall>j. mpv (hs j) \<noteq> PlayInterrupted"
  shows "fst (check_results hs i items d) = None \<and>
         detections (events_since d (snd (check_results hs i items d))) =
           filter (\<lambda>item. snd item > threshold d) items"
proof -
  from check_results_events [of hs i items d] obtain es where
    es: "trace (snd (check_results hs i items d)) = trace d @ es"
      "(\<forall>j. mpv (hs j) \<noteq> PlayInterrupted) \<longrightarrow>
           fst (check_results hs i items d) = None \<and>
           detections es = filter (\<lambda>item. snd item > threshold d) items"
    by blast
  have "events_since d (snd (check_results hs i items d)) = es"
    using es(1) by (rule events_since_append)
  with es(2) assms show ?thesis by simp
qed

text \<open>With \<open>alpha\<close> at 0.7 and \<open>beta\<close> at 0.8 both labels fire, \<open>alpha\<close> first.\<close>

theorem every_label_above_threshold_fires_witness:
  "detections (events_since (listening_example [''alpha'', ''beta''])
     (snd (check_results (\<lambda>i. played) 0 [(''alpha'', 0.7), (''beta'', 0.8)]
             (listening_example [''alpha'', ''beta''])))) =
   [(''alpha'', 0.7), (''beta'', 0.8)]"
proof -
  have h: "\<forall>j. mpv ((\<lambda>i. played) j) \<noteq> PlayInterrupted" by (simp add: played_def)
  from every_label_above_threshold_fires [OF h, of 0 "[(''alpha'', 0.7), (''beta'', 0.8)]"
      "listening_example [''alpha'', ''beta'']"]
  show ?thesis by simp
qed

text \<open>
  C1 as stated fails for \<open>alpha\<close> at 0.7 and \<open>beta\<close> at 0.8 with threshold 0.5: the
  first detection handled, video included, is that of \<open>alpha\<close>, and \<open>beta\<close> is handled
  after it as a second detection.
\<close>

theorem highest_label_counterexample:
  "events_since (listening_example [''alpha'', ''beta''])
     (snd (check_results (\<lambda>i. played) 0 [(''alpha'', 0.7), (''beta'', 0.8)]
             (listening_example [''alpha'', ''beta'']))) =
   [WakeWordDetected ''alpha'' 0.7, StopRecording, ClearQueue, ResetModel,
    PlayVideo Completed, ListeningAgain, StartRecording,
    WakeWordDetected ''beta'' 0.8, StopRecording, ClearQueue, ResetModel,
    PlayVideo Completed, ListeningAgain, StartRecording]"
  by (simp only: two_labels_run) (simp add: events_since_def)

subsection \<open>Errors while scoring\<close>

text \<open>
  C4, as the code has it. An exception of \<^verbatim>\<open>model.predict\<close> other than
  \<^verbatim>\<open>queue.Empty\<close> and \<^verbatim>\<open>KeyboardInterrupt\<close> is not caught by the loop: the chunk
  fires no detection, \<^verbatim>\<open>cleanup\<close> stops the capture, \<^verbatim>\<open>run\<close> ends with that
  exception, and no later chunk is looked at.
\<close>

theorem scoring_error_ends_loop:
  assumes "scored t d" and "prediction t = Inl e"
    and "e \<noteq> Empty" and "e \<noteq> KeyboardInterrupt"
  shows "fst (run_loop exits (t # ts) d) = Crashed e \<and>
         events_since d (snd (run_loop exits (t # ts) d)) = [Predict, StopRecording, Cleanup] \<and>
         run_loop exits (t # ts) d = run_loop exits [t] d \<and>
         \<not> recording (snd (run_loop exits (t # ts) d))"
proof -
  from scored_failed [OF assms(1,2)] obtain d' where
    b: "loop_body t d = (Some e, emit Predict d')" and tr: "trace d' = trace d"
    by blast
  have r: "run_loop exits (t # us) d = (Crashed e, cleanup exits (emit Predict d'))" for us
    using b assms(3,4) by (subst run_loop_step) simp
  have "events_since d (cleanup exits (emit Predict d')) = [Predict, StopRecording, Cleanup]"
    using tr by (simp add: events_since_def)
  moreover have "\<not> recording (cleanup exits (emit Predict d'))"
    by (simp add: cleanup_def emit_def stop_recording_def Let_def split: option.splits)
  ultimately show ?thesis using r by simp
qed

text \<open>A RuntimeError of the model on the first chunk ends the example run.\<close>

theorem scoring_error_ends_loop_witness:
  "scored (frame_failing RuntimeError) (listening_example [''alpha'']) \<and>
   fst (run_loop True [frame_failing RuntimeError, frame_scoring [(''alpha'', 0.9)]]
          (listening_example [''alpha''])) = Crashed RuntimeError \<and>
   events_since (listening_example [''alpha''])
     (snd (run_loop True [frame_failing RuntimeError, frame_scoring [(''alpha'', 0.9)]]
             (listening_example [''alpha'']))) = [Predict, StopRecording, Cleanup]"
proof -
  have s: "scored (frame_failing RuntimeError) (listening_example [''alpha''])"
    by (simp add: scored_def events_since_def example_defs)
  have p: "prediction (frame_failing RuntimeError) = Inl RuntimeError"
    by (simp add: frame_failing_def)
  have e: "RuntimeError \<noteq> Empty" "RuntimeError \<noteq> KeyboardInterrupt" by simp_all
  from scoring_error_ends_loop [OF s p e, of True "[frame_scoring [(''alpha'', 0.9)]]"] s
  show ?thesis by blast
qed

text \<open>
  C4 as stated fails when \<^verbatim>\<open>model.predict\<close> raises RuntimeError on the first of two
  chunks: the loop does not continue, and the second chunk, which would score 0.9, is never
  scored.
\<close>

theorem scoring_error_counterexample:
  "run_loop True [frame_failing RuntimeError, frame_scoring [(''alpha'', 0.9)]]
     (listening_example [''alpha'']) =
   (Crashed RuntimeError, (listening_example [''alpha''])
     \<lparr>recording := False, stream_open := False, threads := [False],
      trace := [Predict, StopRecording, Cleanup]\<rparr>)"
  by (rule failing_run)

subsection \<open>A failed action\<close>

lemma capturing_simps [simp]:
  "capturing (emit e d) = capturing d"
  "capturing (d\<lparr>audio_queue := q\<rparr>) = capturing d"
  by (simp_all add: capturing_def thread_alive_def emit_def split: option.splits)

lemma recorder_usable_simps [simp]:
  "recorder_usable (emit e d) = recorder_usable d"
  "recorder_usable (d\<lparr>audio_queue := q\<rparr>) = recorder_usable d"
  by (simp_all add: recorder_usable_def emit_def)

















subsection \<open>The order of the operations after a detection\<close>


end
